theory Spec2Isabelle
  imports Main "HOL-Library.Word"
begin

section \<open>The atomic lock word\<close>

text \<open>
  \<^verbatim>\<open>std::atomic<int> m_state{0}\<close> of \<^verbatim>\<open>AwaitableGuarded.h\<close>: a 32-bit two's complement
  integer. Every operation below is one atomic access; it takes the content of the atomic
  and returns what the call returns together with the new content. All accesses of the
  lock are to this one atomic object, whose modifications are totally ordered, so an
  execution is an interleaving of these operations (the memory orders
  \<^verbatim>\<open>acquire\<close>/\<^verbatim>\<open>release\<close>/\<^verbatim>\<open>acq_rel\<close> only concern the visibility of other
  memory and are not modelled).
  \<^verbatim>\<open>current + 1\<close> is computed on a plain \<^verbatim>\<open>int\<close>; at \<^verbatim>\<open>INT_MAX\<close> that is
  formally undefined in C++ and is modelled as the two's complement wrap-around of the
  machine.
\<close>

type_synonym int32 = "32 word"

definition load :: "int32 \<Rightarrow> int32" where
  "load a = a"

definition store :: "int32 \<Rightarrow> int32 \<Rightarrow> int32" where
  "store a desired = desired"

text \<open>\<^verbatim>\<open>fetch_sub\<close>: the value read, and the new content.\<close>

definition fetch_sub :: "int32 \<Rightarrow> int32 \<Rightarrow> int32 \<times> int32" where
  "fetch_sub a arg = (a, a - arg)"

text \<open>
  \<^verbatim>\<open>compare_exchange_strong(expected, desired)\<close>: the result, the new content of the
  atomic, and the new content of the caller's \<^verbatim>\<open>expected\<close> (on failure it receives
  the value read; the atomic itself is only read then).
\<close>

definition compare_exchange_strong :: "int32 \<Rightarrow> int32 \<Rightarrow> int32 \<Rightarrow> bool \<times> int32 \<times> int32" where
  "compare_exchange_strong a expected desired =
     (if a = expected then (True, desired, expected) else (False, a, a))"

section \<open>AwaitableGuarded, its proxies and its lock awaitables\<close>

type_synonym addr = nat

record 'a AwaitableGuarded =
  m_state :: int32
  m_data :: 'a

text \<open>
  The resources live on the heap, each owned through \<^verbatim>\<open>std::shared_ptr\<close>; a non-null
  pointer keeps its resource alive, so the heap is total on the addresses pointers hold.
  A \<^verbatim>\<open>shared_ptr\<close> is \<open>None\<close> when null. Copy construction leaves the source as it
  is, move construction leaves it null: each returns the new pointer and the source
  afterwards. Reference counts are not modelled.
\<close>

type_synonym 'a heap = "addr \<Rightarrow> 'a AwaitableGuarded"

type_synonym shared_ptr = "addr option"

definition shared_ptr_copy :: "shared_ptr \<Rightarrow> shared_ptr \<times> shared_ptr" where
  "shared_ptr_copy other = (other, other)"

definition shared_ptr_move :: "shared_ptr \<Rightarrow> shared_ptr \<times> shared_ptr" where
  "shared_ptr_move other = (other, None)"

text \<open>
  The proxies: the one member of each is \<^verbatim>\<open>const std::shared_ptr<AwaitableGuarded<T>> m_guarded\<close>.
\<close>

datatype SharedProxy = SharedProxy shared_ptr

datatype UniqueProxy = UniqueProxy shared_ptr

text \<open>
  \<^verbatim>\<open>~SharedProxy() { if(m_guarded) m_guarded->m_state.fetch_sub(1, release); }\<close>
\<close>

fun SharedProxy_dtor :: "SharedProxy \<Rightarrow> 'a heap \<Rightarrow> 'a heap" where
  "SharedProxy_dtor (SharedProxy None) h = h"
| "SharedProxy_dtor (SharedProxy (Some g)) h =
     h(g := (h g)\<lparr>m_state := snd (fetch_sub (m_state (h g)) 1)\<rparr>)"

text \<open>
  \<^verbatim>\<open>~UniqueProxy() { if(m_guarded) m_guarded->m_state.store(0, release); }\<close>
\<close>

fun UniqueProxy_dtor :: "UniqueProxy \<Rightarrow> 'a heap \<Rightarrow> 'a heap" where
  "UniqueProxy_dtor (UniqueProxy None) h = h"
| "UniqueProxy_dtor (UniqueProxy (Some g)) h =
     h(g := (h g)\<lparr>m_state := store (m_state (h g)) 0\<rparr>)"

text \<open>
  \<^verbatim>\<open>SharedProxy(SharedProxy&&) noexcept = default\<close> (and the same line of
  \<^verbatim>\<open>UniqueProxy\<close>): the defaulted move constructor initialises each member from the
  corresponding member of its argument, taken as an xvalue. \<^verbatim>\<open>m_guarded\<close> is declared
  \<^verbatim>\<open>const\<close>, so that xvalue has type \<^verbatim>\<open>const shared_ptr\<close>; the move constructor
  of \<^verbatim>\<open>shared_ptr\<close> takes \<^verbatim>\<open>shared_ptr&&\<close> and cannot bind it, and overload
  resolution selects the copy constructor. The result is the new proxy and the
  moved-from proxy afterwards.
\<close>

fun SharedProxy_move_ctor :: "SharedProxy \<Rightarrow> SharedProxy \<times> SharedProxy" where
  "SharedProxy_move_ctor (SharedProxy m_guarded) =
     (let (new, src) = shared_ptr_copy m_guarded in (SharedProxy new, SharedProxy src))"

fun UniqueProxy_move_ctor :: "UniqueProxy \<Rightarrow> UniqueProxy \<times> UniqueProxy" where
  "UniqueProxy_move_ctor (UniqueProxy m_guarded) =
     (let (new, src) = shared_ptr_copy m_guarded in (UniqueProxy new, UniqueProxy src))"

subsection \<open>try\_lock\<close>

text \<open>
  \<^verbatim>\<open>SharedLockAwaitable::try_lock\<close> makes two atomic accesses of
  \<^verbatim>\<open>this->guarded->m_state\<close>, a load and, when the value read is not negative, one
  \<^verbatim>\<open>compare_exchange_strong\<close>; other threads may access the atomic between them.
  The two accesses are modelled separately (the system model below interleaves them with
  the steps of other tasks): \<open>try_lock_load\<close> is the load and the test, giving
  \<^verbatim>\<open>current\<close> when the exchange is to be attempted and \<open>None\<close> when \<^verbatim>\<open>try_lock\<close>
  returns false at once; \<open>try_lock_cas\<close> is the exchange, giving what \<^verbatim>\<open>try_lock\<close>
  returns and the new content.
\<close>

definition SharedLockAwaitable_try_lock_load :: "int32 \<Rightarrow> int32 option" where
  "SharedLockAwaitable_try_lock_load m =
     (let current = load m in if 0 <=s current then Some current else None)"

definition SharedLockAwaitable_try_lock_cas :: "int32 \<Rightarrow> int32 \<Rightarrow> bool \<times> int32" where
  "SharedLockAwaitable_try_lock_cas current m =
     (let (ok, m', _) = compare_exchange_strong m current (current + 1) in (ok, m'))"

text \<open>
  One whole call of \<^verbatim>\<open>SharedLockAwaitable::try_lock\<close>. \<open>others\<close> is what the other
  threads do to the atomic between the load and the exchange of this call. The result is
  what the call returns and the content of the atomic after the call's last access.
\<close>

definition SharedLockAwaitable_try_lock :: "(int32 \<Rightarrow> int32) \<Rightarrow> int32 \<Rightarrow> bool \<times> int32" where
  "SharedLockAwaitable_try_lock others m =
     (case SharedLockAwaitable_try_lock_load m of
        Some current \<Rightarrow> SharedLockAwaitable_try_lock_cas current (others m)
      | None \<Rightarrow> (False, m))"

text \<open>\<^verbatim>\<open>UniqueLockAwaitable::try_lock\<close>: one atomic access.\<close>

definition UniqueLockAwaitable_try_lock :: "int32 \<Rightarrow> bool \<times> int32" where
  "UniqueLockAwaitable_try_lock m =
     (let expected = 0; (ok, m', _) = compare_exchange_strong m expected (- 1) in (ok, m'))"

text \<open>
  \<^verbatim>\<open>static_cast<Derived*>(this)->try_lock()\<close> of \<^verbatim>\<open>LockAwaitableBase<Derived, ProxyType>\<close>:
  the two instantiations of the template.
\<close>

datatype Derived = SharedLockAwaitable | UniqueLockAwaitable

fun try_lock :: "Derived \<Rightarrow> (int32 \<Rightarrow> int32) \<Rightarrow> int32 \<Rightarrow> bool \<times> int32" where
  "try_lock SharedLockAwaitable others m = SharedLockAwaitable_try_lock others m"
| "try_lock UniqueLockAwaitable others m = UniqueLockAwaitable_try_lock m"

subsection \<open>The reactor abstraction\<close>

text \<open>
  Modelled from the spec: \<^verbatim>\<open>drogon::app().getIOLoop(i)->queueInLoop(f)\<close> is the
  framework's and not in the sources; the spec's \<^verbatim>\<open>enqueue(reactorIndex, callback)\<close>
  schedules the callback on that reactor and keeps the reactor's FIFO order, so each
  reactor is a queue and the call appends to it. \<^verbatim>\<open>getCurrentThreadIndex()\<close> and
  \<^verbatim>\<open>getThreadNum()\<close> are the framework's too; the functions below take what they
  return on the calling thread as parameters (\<open>cur\<close>, \<open>threadNum\<close>, of type
  \<^verbatim>\<open>size_t\<close>, only compared).

  The code queues two kinds of callback: \<^verbatim>\<open>[this] { spin(); }\<close>, which holds the
  address of a lock awaitable, and \<^verbatim>\<open>[h] { h.resume(); }\<close>, which holds a coroutine
  handle. A \<^verbatim>\<open>std::coroutine_handle<>\<close> is \<open>None\<close> when \<^verbatim>\<open>nullptr\<close>.
\<close>

type_synonym coroutine_handle = "nat option"

datatype callback = Spin nat | Resume coroutine_handle

type_synonym loops = "nat \<Rightarrow> callback list"

definition queueInLoop :: "nat \<Rightarrow> callback \<Rightarrow> loops \<Rightarrow> loops" where
  "queueInLoop i f q = q(i := q i @ [f])"

subsection \<open>LockAwaitableBase\<close>

text \<open>The member \<^verbatim>\<open>handle_\<close> is written \<open>handle'\<close>.\<close>

record LockAwaitableBase =
  guarded :: shared_ptr
  handle' :: coroutine_handle

text \<open>
  \<^verbatim>\<open>lock_shared()\<close> and \<^verbatim>\<open>lock_unique()\<close> of the resource at address \<open>this\<close>:
  the awaitable holds \<^verbatim>\<open>shared_from_this()\<close>. Which of the two awaitable classes it
  is, is the \<open>Derived\<close> the functions below are called with.
\<close>

definition lock_shared :: "addr \<Rightarrow> LockAwaitableBase" where
  "lock_shared this = \<lparr>guarded = Some this, handle' = None\<rparr>"

definition lock_unique :: "addr \<Rightarrow> LockAwaitableBase" where
  "lock_unique this = \<lparr>guarded = Some this, handle' = None\<rparr>"

text \<open>
  \<^verbatim>\<open>create(args...)\<close>: the new resource, \<^verbatim>\<open>m_state{0}\<close> and the data constructed
  from the arguments.
\<close>

definition create :: "'a \<Rightarrow> 'a AwaitableGuarded" where
  "create args = \<lparr>m_state = 0, m_data = args\<rparr>"

text \<open>
  The member functions take the content \<open>m\<close> of \<^verbatim>\<open>this->guarded->m_state\<close> and
  return its new content; \<open>this\<close> is the address of the awaitable.
\<close>

definition LockAwaitableBase_await_ready ::
  "Derived \<Rightarrow> (int32 \<Rightarrow> int32) \<Rightarrow> int32 \<Rightarrow> bool \<times> int32" where
  "LockAwaitableBase_await_ready d others m = try_lock d others m"

definition LockAwaitableBase_await_suspend ::
  "nat \<Rightarrow> coroutine_handle \<Rightarrow> nat \<Rightarrow> LockAwaitableBase \<Rightarrow> loops \<Rightarrow> LockAwaitableBase \<times> loops" where
  "LockAwaitableBase_await_suspend this h cur aw q =
     (aw\<lparr>handle' := h\<rparr>, queueInLoop cur (Spin this) q)"

definition spin ::
  "Derived \<Rightarrow> nat \<Rightarrow> nat \<Rightarrow> (int32 \<Rightarrow> int32) \<Rightarrow> LockAwaitableBase \<Rightarrow> int32 \<Rightarrow> loops \<Rightarrow> int32 \<times> loops" where
  "spin d this cur others aw m q =
     (let (locked, m') = try_lock d others m in
      if locked then (m', queueInLoop cur (Resume (handle' aw)) q)
      else (m', queueInLoop cur (Spin this) q))"

text \<open>
  \<^verbatim>\<open>await_resume() { return ProxyType{std::move(guarded)}; }\<close>: \<^verbatim>\<open>guarded\<close> is
  not const, so the pointer is moved into the proxy. \<open>ProxyType\<close> is
  \<^verbatim>\<open>SharedProxy\<close> for \<^verbatim>\<open>SharedLockAwaitable\<close> and \<^verbatim>\<open>UniqueProxy\<close> for
  \<^verbatim>\<open>UniqueLockAwaitable\<close>.
\<close>

datatype ProxyType = AsShared SharedProxy | AsUnique UniqueProxy

fun LockAwaitableBase_await_resume :: "Derived \<Rightarrow> LockAwaitableBase \<Rightarrow> ProxyType \<times> LockAwaitableBase" where
  "LockAwaitableBase_await_resume SharedLockAwaitable aw =
     (let (p, src) = shared_ptr_move (guarded aw) in (AsShared (SharedProxy p), aw\<lparr>guarded := src\<rparr>))"
| "LockAwaitableBase_await_resume UniqueLockAwaitable aw =
     (let (p, src) = shared_ptr_move (guarded aw) in (AsUnique (UniqueProxy p), aw\<lparr>guarded := src\<rparr>))"

fun ProxyType_dtor :: "ProxyType \<Rightarrow> 'a heap \<Rightarrow> 'a heap" where
  "ProxyType_dtor (AsShared p) h = SharedProxy_dtor p h"
| "ProxyType_dtor (AsUnique p) h = UniqueProxy_dtor p h"

text \<open>
  \<^verbatim>\<open>co_await\<close> on an awaiter, as the language defines it: \<^verbatim>\<open>await_ready()\<close> is
  called; when it returns true the coroutine is not suspended and \<^verbatim>\<open>await_resume()\<close>
  gives the result; otherwise the coroutine is suspended and \<^verbatim>\<open>await_suspend(h)\<close> is
  called with its handle. For a lock awaitable:
\<close>

datatype 'r co_await = Completed 'r | Suspended

definition co_await_lock ::
  "Derived \<Rightarrow> nat \<Rightarrow> coroutine_handle \<Rightarrow> nat \<Rightarrow> (int32 \<Rightarrow> int32) \<Rightarrow> LockAwaitableBase \<Rightarrow> int32 \<Rightarrow> loops
     \<Rightarrow> ProxyType co_await \<times> LockAwaitableBase \<times> int32 \<times> loops" where
  "co_await_lock d this h cur others aw m q =
     (let (ready, m') = LockAwaitableBase_await_ready d others m in
      if ready then (let (p, aw') = LockAwaitableBase_await_resume d aw in (Completed p, aw', m', q))
      else (let (aw', q') = LockAwaitableBase_await_suspend this h cur aw q in (Suspended, aw', m', q')))"

subsection \<open>isHolding\<close>

text \<open>
  A \<^verbatim>\<open>const T&\<close> refers to an object of type \<open>T\<close>: the \<^verbatim>\<open>m_data\<close> member of the
  resource at some address, or an object that is no such member. Two different objects of
  one type have different addresses, so the address of an object is the object's
  identity. \<^verbatim>\<open>isHolding\<close> is \<^verbatim>\<open>const noexcept\<close>; it returns its result and the
  heap as it found it.
\<close>

datatype T_ref = m_data_of addr | other_object nat

definition read_T :: "'a heap \<Rightarrow> (nat \<Rightarrow> 'a) \<Rightarrow> T_ref \<Rightarrow> 'a" where
  "read_T h objs r = (case r of m_data_of g \<Rightarrow> m_data (h g) | other_object n \<Rightarrow> objs n)"

definition isHolding :: "addr \<Rightarrow> T_ref \<Rightarrow> 'a heap \<Rightarrow> bool \<times> 'a heap" where
  "isHolding this a_data h = (m_data_of this = a_data, h)"

section \<open>Tasks that lock: the interleaving model\<close>

text \<open>
  A task is one \<^verbatim>\<open>co_await g->lock_shared()\<close> or \<^verbatim>\<open>co_await g->lock_unique()\<close> and
  the scope that holds the proxy. Its steps are the atomic accesses the code makes:
  \<^item> \<open>Awaiting\<close>: the awaitable exists and no \<^verbatim>\<open>try_lock\<close> is under way (before
    \<^verbatim>\<open>await_ready\<close>, or with a \<^verbatim>\<open>spin\<close> queued); the step is the first access of a
    \<^verbatim>\<open>try_lock\<close>;
  \<^item> \<open>Loaded\<close>: a shared \<^verbatim>\<open>try_lock\<close> between its load and its exchange, with
    \<^verbatim>\<open>current\<close>; the step is the exchange;
  \<^item> \<open>Locked\<close>: \<^verbatim>\<open>try_lock\<close> has returned true; the step is \<^verbatim>\<open>await_resume\<close>,
    which constructs the proxy;
  \<^item> \<open>Holding\<close>: the proxy is alive; the step is its destructor;
  \<^item> \<open>Finished\<close>: the proxy is destroyed.
  A \<^verbatim>\<open>try_lock\<close> that returns false takes the task back to \<open>Awaiting\<close>: from
  \<^verbatim>\<open>await_ready\<close> the coroutine suspends and a \<^verbatim>\<open>spin\<close> is queued, from
  \<^verbatim>\<open>spin\<close> another \<^verbatim>\<open>spin\<close> is queued. The model lets that next attempt
  happen at any later moment. An awaitable whose \<^verbatim>\<open>guarded\<close> is null does not occur
  (\<^verbatim>\<open>lock_shared\<close> and \<^verbatim>\<open>lock_unique\<close> are the only makers); such a task does not move.
\<close>

datatype task =
    Awaiting Derived LockAwaitableBase
  | Loaded LockAwaitableBase int32
  | Locked Derived LockAwaitableBase
  | Holding ProxyType
  | Finished

fun task_step :: "task \<Rightarrow> 'a heap \<Rightarrow> task \<times> 'a heap" where
  "task_step (Awaiting SharedLockAwaitable aw) h =
     (case guarded aw of
        None \<Rightarrow> (Awaiting SharedLockAwaitable aw, h)
      | Some g \<Rightarrow>
          (case SharedLockAwaitable_try_lock_load (m_state (h g)) of
             None \<Rightarrow> (Awaiting SharedLockAwaitable aw, h)
           | Some current \<Rightarrow> (Loaded aw current, h)))"
| "task_step (Loaded aw current) h =
     (case guarded aw of
        None \<Rightarrow> (Loaded aw current, h)
      | Some g \<Rightarrow>
          (let (ok, m') = SharedLockAwaitable_try_lock_cas current (m_state (h g)) in
           (if ok then Locked SharedLockAwaitable aw else Awaiting SharedLockAwaitable aw,
            h(g := (h g)\<lparr>m_state := m'\<rparr>))))"
| "task_step (Awaiting UniqueLockAwaitable aw) h =
     (case guarded aw of
        None \<Rightarrow> (Awaiting UniqueLockAwaitable aw, h)
      | Some g \<Rightarrow>
          (let (ok, m') = UniqueLockAwaitable_try_lock (m_state (h g)) in
           (if ok then Locked UniqueLockAwaitable aw else Awaiting UniqueLockAwaitable aw,
            h(g := (h g)\<lparr>m_state := m'\<rparr>))))"
| "task_step (Locked d aw) h = (Holding (fst (LockAwaitableBase_await_resume d aw)), h)"
| "task_step (Holding p) h = (Finished, ProxyType_dtor p h)"
| "task_step Finished h = (Finished, h)"

record 'a system =
  heap :: "'a heap"
  tasks :: "task list"

text \<open>Task \<open>i\<close> takes its next step; a schedule is the list of the tasks that step, in order.\<close>

definition sys_step :: "nat \<Rightarrow> 'a system \<Rightarrow> 'a system" where
  "sys_step i s =
     (if i < length (tasks s)
      then (let (t', h') = task_step (tasks s ! i) (heap s) in \<lparr>heap = h', tasks = (tasks s)[i := t']\<rparr>)
      else s)"

fun run :: "nat list \<Rightarrow> 'a system \<Rightarrow> 'a system" where
  "run [] s = s"
| "run (i # sched) s = run sched (sys_step i s)"

text \<open>A live \<^verbatim>\<open>SharedProxy\<close> (\<^verbatim>\<open>UniqueProxy\<close>) of the resource at \<open>g\<close>.\<close>

fun live_shared :: "addr \<Rightarrow> task \<Rightarrow> bool" where
  "live_shared g (Holding (AsShared (SharedProxy p))) = (p = Some g)"
| "live_shared g _ = False"


text \<open>
  The task owns the lock of \<open>g\<close> in shared (unique) mode: from the \<^verbatim>\<open>try_lock\<close> that
  returned true until the destructor of the proxy.
\<close>

fun owns_shared :: "addr \<Rightarrow> task \<Rightarrow> bool" where
  "owns_shared g (Locked SharedLockAwaitable aw) = (guarded aw = Some g)"
| "owns_shared g (Holding (AsShared (SharedProxy p))) = (p = Some g)"
| "owns_shared g _ = False"

fun owns_unique :: "addr \<Rightarrow> task \<Rightarrow> bool" where
  "owns_unique g (Locked UniqueLockAwaitable aw) = (guarded aw = Some g)"
| "owns_unique g (Holding (AsUnique (UniqueProxy p))) = (p = Some g)"
| "owns_unique g _ = False"

fun is_Awaiting :: "task \<Rightarrow> bool" where
  "is_Awaiting (Awaiting d aw) = True"
| "is_Awaiting _ = False"

text \<open>
  The start for the resource at \<open>g\<close>: it is as \<^verbatim>\<open>create\<close> left its lock word, and
  every task has its awaitable and has not tried yet.
\<close>

definition initial :: "addr \<Rightarrow> 'a system \<Rightarrow> bool" where
  "initial g s = (m_state (heap s g) = 0 \<and> list_all is_Awaiting (tasks s))"

text \<open>
  Bookkeeping for the proofs. A \<open>Loaded\<close> task carries a \<^verbatim>\<open>current\<close> that passed
  the test of \<^verbatim>\<open>try_lock\<close>. The lock word of \<open>g\<close> agrees with the owners of \<open>g\<close>:
  one unique owner, no shared owner and the word \<open>-1\<close>; or no unique owner and the word
  the number of shared owners. \<open>lock_rel\<close> lists what one step of a task can do to
  its ownership of \<open>g\<close> and to the lock word of \<open>g\<close>. A task is \<open>waiting\<close> while it
  has not locked. Of the value a \<open>Loaded\<close> task has read the invariant keeps only that
  it is not negative: an exchange succeeds on what the word is then, whatever was read.
\<close>

fun wf_task :: "task \<Rightarrow> bool" where
  "wf_task (Loaded aw current) = (0 <=s current)"
| "wf_task _ = True"

definition counts_ok :: "nat \<Rightarrow> nat \<Rightarrow> int32 \<Rightarrow> bool" where
  "counts_ok S U m = ((U = 1 \<and> S = 0 \<and> m = - 1) \<or> (U = 0 \<and> S \<le> 2147483648 \<and> m = of_nat S))"

definition lock_inv :: "addr \<Rightarrow> 'a system \<Rightarrow> bool" where
  "lock_inv g s =
     (list_all wf_task (tasks s) \<and>
      counts_ok (length (filter (owns_shared g) (tasks s)))
        (length (filter (owns_unique g) (tasks s))) (m_state (heap s g)))"

definition lock_rel :: "bool \<Rightarrow> bool \<Rightarrow> bool \<Rightarrow> bool \<Rightarrow> int32 \<Rightarrow> int32 \<Rightarrow> bool" where
  "lock_rel os ou os' ou' m m' =
     ((os' = os \<and> ou' = ou \<and> m' = m) \<or>
      (\<not> os \<and> os' \<and> \<not> ou \<and> \<not> ou' \<and> 0 <=s m \<and> m' = m + 1) \<or>
      (\<not> ou \<and> ou' \<and> \<not> os \<and> \<not> os' \<and> m = 0 \<and> m' = - 1) \<or>
      (os \<and> \<not> os' \<and> \<not> ou \<and> \<not> ou' \<and> m' = m - 1) \<or>
      (ou \<and> \<not> ou' \<and> \<not> os \<and> \<not> os' \<and> m' = 0))"

fun waiting :: "task \<Rightarrow> bool" where
  "waiting (Awaiting d aw) = True"
| "waiting (Loaded aw current) = True"
| "waiting _ = False"

section \<open>resume\_on\_io\_loop: resuming on the IO loop the coroutine came from\<close>

text \<open>
  The wrapped awaiter is modelled by what \<^verbatim>\<open>co_await self->m_inner_awaiter\<close> does in the
  lambda: it throws an exception \<open>e\<close> (\<open>Inl e\<close>) or yields a value \<open>v\<close> (\<open>Inr v\<close>);
  for a void \<^verbatim>\<open>ResultType\<close> the value is \<open>()\<close>.
  \<^verbatim>\<open>switch_to_io_loop(awaiter)\<close> constructs the wrapper around it.

  A value of \<^verbatim>\<open>ResultType\<close> is constructed from an rvalue twice: by
  \<^verbatim>\<open>m_result.emplace<ResultType>(std::move(...))\<close> in the lambda and by
  \<^verbatim>\<open>return std::get<ResultType>(std::move(m_result))\<close> in \<^verbatim>\<open>await_resume\<close>. That is
  the move constructor of \<^verbatim>\<open>ResultType\<close> (its copy constructor when it has no move
  constructor), code of the wrapped type: the functions below take it as the parameter
  \<open>move_ctor\<close>, which throws an exception (\<open>Inl\<close>) or gives the new value (\<open>Inr\<close>).
\<close>

datatype 'i resume_on_io_loop = resume_on_io_loop 'i

definition switch_to_io_loop :: "'i \<Rightarrow> 'i resume_on_io_loop" where
  "switch_to_io_loop awaiter = resume_on_io_loop awaiter"

text \<open>
  \<^verbatim>\<open>m_result\<close> is \<^verbatim>\<open>std::variant<std::monostate, std::exception_ptr, ResultType>\<close>, and
  \<^verbatim>\<open>std::variant<std::monostate, std::exception_ptr>\<close> when \<^verbatim>\<open>ResultType\<close> is void
  (\<^verbatim>\<open>std::conditional_t\<close>): two types, chosen when the template is instantiated.
\<close>

datatype ('e, 'r) m_result = monostate | exception_ptr 'e | ResultType 'r

datatype 'e m_result_void = monostate_void | exception_ptr_void 'e

record ('i, 'm) awaiter =
  m_inner_awaiter :: 'i
  m_original_thread_index :: nat
  m_result :: 'm

text \<open>
  \<^verbatim>\<open>operator co_await() &&\<close>: \<^verbatim>\<open>return awaiter{std::move(m_inner_awaiter), 0, {}};\<close>,
  for a \<^verbatim>\<open>ResultType\<close> that is not void and for void.
\<close>

fun operator_co_await :: "('e + 'r) resume_on_io_loop \<Rightarrow> ('e + 'r, ('e, 'r) m_result) awaiter" where
  "operator_co_await (resume_on_io_loop inner) =
     \<lparr>m_inner_awaiter = inner, m_original_thread_index = 0, m_result = monostate\<rparr>"

fun operator_co_await_void :: "('e + unit) resume_on_io_loop \<Rightarrow> ('e + unit, 'e m_result_void) awaiter" where
  "operator_co_await_void (resume_on_io_loop inner) =
     \<lparr>m_inner_awaiter = inner, m_original_thread_index = 0, m_result = monostate_void\<rparr>"

definition awaiter_await_ready :: "('i, 'm) awaiter \<Rightarrow> bool" where
  "awaiter_await_ready self = False"

text \<open>
  What \<^verbatim>\<open>await_resume\<close> throws: the exception held by the variant, rethrown by
  \<^verbatim>\<open>std::rethrow_exception\<close>; the \<^verbatim>\<open>std::runtime_error\<close> of \<^verbatim>\<open>await_resume\<close>
  itself, with its message; or the exception the move constructor throws in its
  \<^verbatim>\<open>return\<close>.
\<close>

datatype 'e exception = rethrown 'e | runtime_error string | thrown 'e

text \<open>
  \<^verbatim>\<open>await_resume\<close> for a \<^verbatim>\<open>ResultType\<close> that is not void: the exception is rethrown
  if the variant holds one; else the value is returned, moved out of the variant, if it
  holds one; else \<^verbatim>\<open>runtime_error\<close> is thrown.
\<close>

definition awaiter_await_resume ::
  "('r \<Rightarrow> 'e + 'r) \<Rightarrow> ('i, ('e, 'r) m_result) awaiter \<Rightarrow> 'e exception + 'r" where
  "awaiter_await_resume move_ctor self =
     (case m_result self of
        exception_ptr e \<Rightarrow> Inl (rethrown e)
      | ResultType v \<Rightarrow> (case move_ctor v of Inr v' \<Rightarrow> Inr v' | Inl e \<Rightarrow> Inl (thrown e))
      | monostate \<Rightarrow> Inl (runtime_error ''await_resume: neither exception nor value is in m_result''))"

text \<open>
  \<^verbatim>\<open>await_resume\<close> for void: the \<^verbatim>\<open>if constexpr(!std::is_void_v<ResultType>)\<close> block
  is not compiled, so after the test for an exception the function returns.
\<close>

definition awaiter_await_resume_void :: "('i, 'e m_result_void) awaiter \<Rightarrow> 'e exception + unit" where
  "awaiter_await_resume_void self =
     (case m_result self of
        exception_ptr_void e \<Rightarrow> Inl (rethrown e)
      | monostate_void \<Rightarrow> Inr ())"

text \<open>
  The lambda coroutine of \<^verbatim>\<open>await_suspend\<close>, as the list of what it does to the
  awaiter and to the loops, in order: each \<^verbatim>\<open>m_result.emplace\<close> and each
  \<^verbatim>\<open>queueInLoop\<close>. \<open>on_thread\<close> is what \<^verbatim>\<open>getCurrentThreadIndex()\<close> would return
  on the thread that completes the inner awaiter, where the rest of the lambda runs;
  the lambda does not call it. The lambda is a \<^verbatim>\<open>fire_and_forget_task\<close>: it starts
  when it is called (\<^verbatim>\<open>initial_suspend\<close> is \<^verbatim>\<open>suspend_never\<close>) and nobody awaits it.

  The \<^verbatim>\<open>co_await\<close> and the \<^verbatim>\<open>emplace<ResultType>\<close> are both inside the
  \<^verbatim>\<open>try\<close> block. When the inner awaiter throws, \<^verbatim>\<open>catch(...)\<close> does
  \<^verbatim>\<open>emplace<std::exception_ptr>\<close>. When it yields \<open>v\<close>, the value is constructed in
  the variant by the move constructor; when that throws, no value is recorded, the
  exception goes to the same \<^verbatim>\<open>catch(...)\<close>, and its \<^verbatim>\<open>emplace\<close> replaces whatever the
  failed one left in the variant. For void there is no \<^verbatim>\<open>emplace\<close> in the
  \<^verbatim>\<open>try\<close> block.
\<close>

datatype 'm effect = Emplace 'm | QueueInLoop nat callback

definition lambda ::
  "('r \<Rightarrow> 'e + 'r) \<Rightarrow> ('e + 'r, ('e, 'r) m_result) awaiter \<Rightarrow> coroutine_handle \<Rightarrow> nat
     \<Rightarrow> ('e, 'r) m_result effect list" where
  "lambda move_ctor self handle on_thread =
     (case m_inner_awaiter self of
        Inr v \<Rightarrow>
          (case move_ctor v of
             Inr v' \<Rightarrow> [Emplace (ResultType v')]
           | Inl e \<Rightarrow> [Emplace (exception_ptr e)])
      | Inl e \<Rightarrow> [Emplace (exception_ptr e)])
     @ [QueueInLoop (m_original_thread_index self) (Resume handle)]"

definition lambda_void ::
  "('e + unit, 'e m_result_void) awaiter \<Rightarrow> coroutine_handle \<Rightarrow> nat \<Rightarrow> 'e m_result_void effect list" where
  "lambda_void self handle on_thread =
     (case m_inner_awaiter self of
        Inr v \<Rightarrow> []
      | Inl e \<Rightarrow> [Emplace (exception_ptr_void e)])
     @ [QueueInLoop (m_original_thread_index self) (Resume handle)]"

fun perform :: "'m effect \<Rightarrow> ('i, 'm) awaiter \<times> loops \<Rightarrow> ('i, 'm) awaiter \<times> loops" where
  "perform (Emplace v) (self, q) = (self\<lparr>m_result := v\<rparr>, q)"
| "perform (QueueInLoop i f) (self, q) = (self, queueInLoop i f q)"


text \<open>
  \<^verbatim>\<open>await_suspend(handle)\<close>, called on the thread of the awaiting coroutine, where
  \<^verbatim>\<open>getCurrentThreadIndex()\<close> is \<open>cur\<close>: the index is captured, replaced by 0 when it
  is not below \<^verbatim>\<open>getThreadNum()\<close>, and the lambda is launched.
\<close>

definition awaiter_await_suspend ::
  "('r \<Rightarrow> 'e + 'r) \<Rightarrow> coroutine_handle \<Rightarrow> nat \<Rightarrow> nat \<Rightarrow> nat
     \<Rightarrow> ('e + 'r, ('e, 'r) m_result) awaiter \<Rightarrow> loops
     \<Rightarrow> ('e + 'r, ('e, 'r) m_result) awaiter \<times> loops" where
  "awaiter_await_suspend move_ctor handle cur threadNum on_thread self q =
     (let self1 = self\<lparr>m_original_thread_index := cur\<rparr>;
          self2 = (if m_original_thread_index self1 \<ge> threadNum
                   then self1\<lparr>m_original_thread_index := 0\<rparr> else self1)
      in fold perform (lambda move_ctor self2 handle on_thread) (self2, q))"

definition awaiter_await_suspend_void ::
  "coroutine_handle \<Rightarrow> nat \<Rightarrow> nat \<Rightarrow> nat \<Rightarrow> ('e + unit, 'e m_result_void) awaiter \<Rightarrow> loops
     \<Rightarrow> ('e + unit, 'e m_result_void) awaiter \<times> loops" where
  "awaiter_await_suspend_void handle cur threadNum on_thread self q =
     (let self1 = self\<lparr>m_original_thread_index := cur\<rparr>;
          self2 = (if m_original_thread_index self1 \<ge> threadNum
                   then self1\<lparr>m_original_thread_index := 0\<rparr> else self1)
      in fold perform (lambda_void self2 handle on_thread) (self2, q))"

text \<open>
  \<^verbatim>\<open>co_await switch_to_io_loop(inner)\<close> up to the suspension: whether the coroutine is
  suspended (with \<open>Completed\<close> it would go on at once with the result of
  \<^verbatim>\<open>await_resume\<close>), the awaiter and the loops. The result the coroutine sees when the
  queued \<^verbatim>\<open>handle.resume()\<close> runs is \<^verbatim>\<open>await_resume\<close> of that awaiter.
\<close>

definition co_await_resume_on_io_loop ::
  "('r \<Rightarrow> 'e + 'r) \<Rightarrow> ('e + 'r) resume_on_io_loop \<Rightarrow> coroutine_handle \<Rightarrow> nat \<Rightarrow> nat \<Rightarrow> nat \<Rightarrow> loops
     \<Rightarrow> ('e exception + 'r) co_await \<times> ('e + 'r, ('e, 'r) m_result) awaiter \<times> loops" where
  "co_await_resume_on_io_loop move_ctor w handle cur threadNum on_thread q =
     (let self = operator_co_await w in
      if awaiter_await_ready self then (Completed (awaiter_await_resume move_ctor self), self, q)
      else (let (self', q') = awaiter_await_suspend move_ctor handle cur threadNum on_thread self q
            in (Suspended, self', q')))"

definition co_await_resume_on_io_loop_void ::
  "('e + unit) resume_on_io_loop \<Rightarrow> coroutine_handle \<Rightarrow> nat \<Rightarrow> nat \<Rightarrow> nat \<Rightarrow> loops
     \<Rightarrow> ('e exception + unit) co_await \<times> ('e + unit, 'e m_result_void) awaiter \<times> loops" where
  "co_await_resume_on_io_loop_void w handle cur threadNum on_thread q =
     (let self = operator_co_await_void w in
      if awaiter_await_ready self then (Completed (awaiter_await_resume_void self), self, q)
      else (let (self', q') = awaiter_await_suspend_void handle cur threadNum on_thread self q
            in (Suspended, self', q')))"

section \<open>A small system for the examples\<close>

text \<open>
  Loops with nothing queued. A move constructor that always throws. One resource at address 0, made by \<^verbatim>\<open>create\<close>, and
  three tasks on it: a shared one, a unique one and another shared one.
\<close>

definition idle_loops :: loops where
  "idle_loops = (\<lambda>_. [])"


definition s0 :: "unit system" where
  "s0 = \<lparr>heap = (\<lambda>_. create ()),
         tasks = [Awaiting SharedLockAwaitable (lock_shared 0),
                  Awaiting UniqueLockAwaitable (lock_unique 0),
                  Awaiting SharedLockAwaitable (lock_shared 0)]\<rparr>"

text \<open>
  The same tasks when the lock word of the resource is \<open>-1\<close> (a task outside the list
  holds the resource uniquely); the third task has already read 0 in its \<^verbatim>\<open>try_lock\<close>.
\<close>

definition s_locked :: "unit system" where
  "s_locked = \<lparr>heap = (\<lambda>_. \<lparr>m_state = - 1, m_data = ()\<rparr>),
         tasks = [Awaiting SharedLockAwaitable (lock_shared 0),
                  Awaiting UniqueLockAwaitable (lock_unique 0),
                  Loaded (lock_shared 0) 0]\<rparr>"

text \<open>
  A proxy that is moved. In \<open>s0\<close> the unique task locks and resumes, and its proxy is
  move-constructed into a second proxy \<open>q\<close>; the moved-from proxy \<open>p\<close> is destroyed;
  the first shared task then locks and resumes; at last \<open>q\<close> is destroyed.
\<close>

definition s_moved :: "unit system" where
  "s_moved =
     (let s1 = run [1,1] s0;
          (q, p) = UniqueProxy_move_ctor (UniqueProxy (Some 0));
          s2 = run [0,0,0] (s1\<lparr>heap := UniqueProxy_dtor p (heap s1)\<rparr>)
      in s2\<lparr>heap := UniqueProxy_dtor q (heap s2)\<rparr>)"

text \<open>
  All proxies dropped after a move. In \<open>s0\<close> the first shared task locks and resumes,
  and its proxy is move-constructed into a second proxy \<open>q\<close>; \<open>q\<close> is destroyed, and
  then the task destroys its own proxy, the moved-from one.
\<close>

definition s_dropped :: "unit system" where
  "s_dropped =
     (let s1 = run [0,0,0] s0;
          (q, p) = SharedProxy_move_ctor (SharedProxy (Some 0))
      in sys_step 0 (s1\<lparr>heap := SharedProxy_dtor q (heap s1)\<rparr>))"

section \<open>The lock word and its owners\<close>

lemmas atomics = SharedLockAwaitable_try_lock_load_def SharedLockAwaitable_try_lock_cas_def
  UniqueLockAwaitable_try_lock_def compare_exchange_strong_def load_def store_def fetch_sub_def
  shared_ptr_move_def shared_ptr_copy_def

lemma shared_try_lock_eq:
  "SharedLockAwaitable_try_lock others m =
     (if 0 <=s m \<and> others m = m then (True, m + 1)
      else if 0 <=s m then (False, others m)
      else (False, m))"
  by (simp add: SharedLockAwaitable_try_lock_def atomics)

lemma unique_try_lock_eq:
  "UniqueLockAwaitable_try_lock m = (if m = 0 then (True, - 1) else (False, m))"
  by (simp add: atomics)

subsection \<open>Lists and words\<close>

lemma length_filter_update:
  "i < length xs \<Longrightarrow>
   length (filter P (xs[i := y])) + (if P (xs ! i) then 1 else 0) =
   length (filter P xs) + (if P y then 1 else 0)"
proof (induction xs arbitrary: i)
  case Nil
  then show ?case by simp
next
  case (Cons x xs)
  then show ?case by (cases i) auto
qed

lemma filter_pos: "i < length xs \<Longrightarrow> P (xs ! i) \<Longrightarrow> 0 < length (filter P xs)"
  by (metis filter_empty_conv length_greater_0_conv nth_mem)

lemma two_filter:
  assumes "i < length xs" "j < length xs" "i \<noteq> j" "P (xs ! i)" "P (xs ! j)"
  shows "2 \<le> length (filter P xs)"
proof -
  have "{i, j} \<subseteq> {k. k < length xs \<and> P (xs ! k)}" using assms by auto
  then have "card {i, j} \<le> card {k. k < length xs \<and> P (xs ! k)}"
    by (rule card_mono [rotated]) simp
  with assms(3) show ?thesis by (simp add: length_filter_conv_card)
qed

lemma list_all_update: "list_all P xs \<Longrightarrow> P y \<Longrightarrow> list_all P (xs[i := y])"
  by (auto simp: list_all_iff dest: set_update_subset_insert [THEN subsetD])

lemma not_sle_m1: "\<not> (0 <=s (- 1 :: int32))"
  by (simp add: word_sle_eq)

lemma sle_of_nat:
  assumes "S \<le> 2147483648" "0 <=s (of_nat S :: int32)"
  shows "S < 2147483648"
proof (rule ccontr)
  assume "\<not> S < 2147483648"
  with assms(1) have "S = 2147483648" by simp
  with assms(2) show False by (simp add: word_sle_eq)
qed

lemma of_nat_zero:
  assumes "S \<le> 2147483648" "(of_nat S :: int32) = 0"
  shows "S = 0"
proof -
  have "2 ^ LENGTH(32) dvd S" using assms(2) by (simp only: word_of_nat_eq_0_iff)
  then have "S = 0 \<or> 2 ^ LENGTH(32) \<le> S" by (auto dest: dvd_imp_le)
  with assms(1) show ?thesis by simp
qed

subsection \<open>One step of one task\<close>

lemma task_step_wf: "wf_task t \<Longrightarrow> wf_task (fst (task_step t h))"
  by (cases "(t, h)" rule: task_step.cases)
     (auto simp: atomics Let_def split: option.splits if_splits prod.splits)

lemma task_step_rel:
  assumes "task_step t h = (t', h')" "wf_task t"
  shows "lock_rel (owns_shared g t) (owns_unique g t) (owns_shared g t') (owns_unique g t')
           (m_state (h g)) (m_state (h' g))"
proof (cases "(t, h)" rule: task_step.cases)
  case (1 aw h)
  then show ?thesis using assms
    by (auto simp: lock_rel_def atomics Let_def split: option.splits if_splits)
next
  case (2 aw current h)
  then show ?thesis using assms
    by (auto simp: lock_rel_def atomics Let_def split: option.splits if_splits)
next
  case (3 aw h)
  then show ?thesis using assms
    by (auto simp: lock_rel_def atomics Let_def split: option.splits if_splits)
next
  case (4 d aw h)
  then show ?thesis using assms
    by (cases d) (auto simp: lock_rel_def atomics Let_def split: option.splits if_splits)
next
  case (5 p h)
  then show ?thesis using assms
    apply (cases p)
    subgoal for sp by (cases sp; cases "case sp of SharedProxy q \<Rightarrow> q") (auto simp: lock_rel_def atomics)
    subgoal for up by (cases up; cases "case up of UniqueProxy q \<Rightarrow> q") (auto simp: lock_rel_def atomics)
    done
next
  case (6 h)
  then show ?thesis using assms by (auto simp: lock_rel_def)
qed

subsection \<open>The counts follow the lock word\<close>

lemma counts_ok_acq_shared:
  assumes "counts_ok S U m" "0 <=s m"
  shows "counts_ok (Suc S) U (m + 1)"
proof -
  from assms have a: "U = 0" "S \<le> 2147483648" "m = of_nat S"
    by (auto simp: counts_ok_def not_sle_m1)
  from a(2) assms(2) have "S < 2147483648" unfolding a(3) by (rule sle_of_nat)
  then have "Suc S \<le> 2147483648" by simp
  moreover have "m + 1 = of_nat (Suc S)" unfolding a(3) by simp
  ultimately show ?thesis using a(1) unfolding counts_ok_def by blast
qed

lemma counts_ok_acq_unique:
  assumes "counts_ok S U 0"
  shows "counts_ok S (Suc U) (- 1)"
proof -
  from assms have "U = 0 \<and> S \<le> 2147483648 \<and> (of_nat S :: int32) = 0"
    unfolding counts_ok_def by auto
  then have "U = 0" "S = 0" by (auto dest: of_nat_zero)
  then show ?thesis by (simp add: counts_ok_def)
qed

lemma counts_ok_rel_shared:
  assumes "counts_ok (Suc S) U m"
  shows "counts_ok S U (m - 1)"
proof -
  from assms have a: "U = 0" "Suc S \<le> 2147483648" "m = of_nat (Suc S)"
    unfolding counts_ok_def by auto
  have "m - 1 = of_nat S" unfolding a(3) by simp
  moreover from a(2) have "S \<le> 2147483648" by simp
  ultimately show ?thesis using a(1) unfolding counts_ok_def by blast
qed

lemma counts_ok_rel_unique:
  assumes "counts_ok S (Suc U) m"
  shows "counts_ok S U 0"
proof -
  from assms have "U = 0 \<and> S = 0" unfolding counts_ok_def by auto
  then show ?thesis by (simp add: counts_ok_def)
qed

lemma counts_ok_step:
  assumes rel: "lock_rel os ou os' ou' m m'"
    and S: "S' + (if os then 1 else 0) = S + (if os' then 1 else (0::nat))"
    and U: "U' + (if ou then 1 else 0) = U + (if ou' then 1 else (0::nat))"
    and ok: "counts_ok S U m"
  shows "counts_ok S' U' m'"
proof -
  consider (quiet) "os' = os" "ou' = ou" "m' = m"
    | (acq_shared) "\<not> os" "os'" "\<not> ou" "\<not> ou'" "0 <=s m" "m' = m + 1"
    | (acq_unique) "\<not> ou" "ou'" "\<not> os" "\<not> os'" "m = 0" "m' = - 1"
    | (rel_shared) "os" "\<not> os'" "\<not> ou" "\<not> ou'" "m' = m - 1"
    | (rel_unique) "ou" "\<not> ou'" "\<not> os" "\<not> os'" "m' = 0"
    using rel unfolding lock_rel_def by blast
  then show ?thesis
  proof cases
    case quiet
    from S quiet(1) have "S' = S" by (cases os) simp_all
    moreover from U quiet(2) have "U' = U" by (cases ou) simp_all
    ultimately show ?thesis using ok quiet(3) by simp
  next
    case acq_shared
    from S acq_shared(1,2) have "S' = Suc S" by simp
    moreover from U acq_shared(3,4) have "U' = U" by simp
    ultimately show ?thesis
      using counts_ok_acq_shared [OF ok acq_shared(5)] acq_shared(6) by simp
  next
    case acq_unique
    from S acq_unique(3,4) have "S' = S" by simp
    moreover from U acq_unique(1,2) have "U' = Suc U" by simp
    moreover from ok acq_unique(5) have "counts_ok S U 0" by simp
    then have "counts_ok S (Suc U) (- 1)" by (rule counts_ok_acq_unique)
    ultimately show ?thesis
      using acq_unique(6) by simp
  next
    case rel_shared
    from S rel_shared(1,2) have "S = Suc S'" by simp
    moreover from U rel_shared(3,4) have "U' = U" by simp
    ultimately show ?thesis
      using counts_ok_rel_shared [of S' U m] ok rel_shared(5) by simp
  next
    case rel_unique
    from S rel_unique(3,4) have "S' = S" by simp
    moreover from U rel_unique(1,2) have "U = Suc U'" by simp
    ultimately show ?thesis
      using counts_ok_rel_unique [of S U' m] ok rel_unique(5) by simp
  qed
qed

subsection \<open>Every schedule keeps the invariant\<close>

lemma lock_inv_step:
  assumes "lock_inv g s"
  shows "lock_inv g (sys_step i s)"
proof (cases "i < length (tasks s)")
  case False
  with assms show ?thesis by (simp add: sys_step_def)
next
  case True
  obtain t' h' where st: "task_step (tasks s ! i) (heap s) = (t', h')"
    by (cases "task_step (tasks s ! i) (heap s)")
  from assms True have wf: "wf_task (tasks s ! i)"
    by (simp add: lock_inv_def list_all_length)
  have s': "sys_step i s = \<lparr>heap = h', tasks = (tasks s)[i := t']\<rparr>"
    using True st by (simp add: sys_step_def)
  have wf': "wf_task t'" using task_step_wf [OF wf, of "heap s"] st by simp
  have rel: "lock_rel (owns_shared g (tasks s ! i)) (owns_unique g (tasks s ! i))
               (owns_shared g t') (owns_unique g t') (m_state (heap s g)) (m_state (h' g))"
    by (rule task_step_rel [OF st wf])
  have "counts_ok (length (filter (owns_shared g) ((tasks s)[i := t'])))
          (length (filter (owns_unique g) ((tasks s)[i := t']))) (m_state (h' g))"
    by (rule counts_ok_step [OF rel length_filter_update [OF True] length_filter_update [OF True]])
       (use assms in \<open>simp add: lock_inv_def\<close>)
  moreover have "list_all wf_task ((tasks s)[i := t'])"
    using assms wf' by (simp add: lock_inv_def list_all_update)
  ultimately show ?thesis by (simp add: s' lock_inv_def)
qed

lemma lock_inv_run: "lock_inv g s \<Longrightarrow> lock_inv g (run sched s)"
  by (induction sched arbitrary: s) (simp_all add: lock_inv_step)

lemma is_Awaiting_props: "is_Awaiting t \<Longrightarrow> wf_task t \<and> \<not> owns_shared g t \<and> \<not> owns_unique g t"
  by (cases t) simp_all

lemma initial_lock_inv: "initial g s \<Longrightarrow> lock_inv g s"
  by (auto simp: initial_def lock_inv_def counts_ok_def list_all_iff is_Awaiting_props
      filter_empty_conv [THEN iffD2])


lemma lock_inv_exclusive:
  assumes inv: "lock_inv g s" and i: "i < length (tasks s)" and j: "j < length (tasks s)"
    and ne: "i \<noteq> j" and u: "owns_unique g (tasks s ! i)"
  shows "\<not> owns_unique g (tasks s ! j) \<and> \<not> owns_shared g (tasks s ! j)"
proof -
  let ?S = "length (filter (owns_shared g) (tasks s))"
  let ?U = "length (filter (owns_unique g) (tasks s))"
  from inv have ok: "counts_ok ?S ?U (m_state (heap s g))" by (simp add: lock_inv_def)
  from filter_pos [OF i, of "owns_unique g"] u have "0 < ?U" by simp
  with ok have U1: "?U = 1" and S0: "?S = 0" by (auto simp: counts_ok_def)
  have "\<not> owns_unique g (tasks s ! j)"
  proof
    assume "owns_unique g (tasks s ! j)"
    from two_filter [OF i j ne u this] U1 show False by simp
  qed
  moreover have "\<not> owns_shared g (tasks s ! j)"
  proof
    assume "owns_shared g (tasks s ! j)"
    from filter_pos [OF j, of "owns_shared g"] this S0 show False by simp
  qed
  ultimately show ?thesis ..
qed


lemma lock_inv_quiescent:
  assumes inv: "lock_inv g s"
    and none: "\<forall>t \<in> set (tasks s). \<not> owns_shared g t \<and> \<not> owns_unique g t"
  shows "m_state (heap s g) = 0"
proof -
  from none have "filter (owns_shared g) (tasks s) = []" "filter (owns_unique g) (tasks s) = []"
    by (simp_all add: filter_empty_conv)
  with inv show ?thesis by (simp add: lock_inv_def counts_ok_def)
qed

lemma run_owner_exclusive:
  assumes "initial g s"
    and "i < length (tasks (run sched s))" "j < length (tasks (run sched s))" "i \<noteq> j"
    and "owns_unique g (tasks (run sched s) ! i)"
  shows "\<not> owns_unique g (tasks (run sched s) ! j) \<and> \<not> owns_shared g (tasks (run sched s) ! j)"
  using assms by (intro lock_inv_exclusive lock_inv_run initial_lock_inv)

section \<open>The claims\<close>



subsection \<open>Attempts that fail\<close>

lemma length_tasks_step: "length (tasks (sys_step i s)) = length (tasks s)"
  by (simp add: sys_step_def split: prod.splits)

lemma task_step_waiting:
  assumes "task_step t h = (t', h')" "waiting t'"
  shows "waiting t \<and> h' = h"
  using assms
  by (cases "(t, h)" rule: task_step.cases)
     (auto simp: atomics Let_def split: option.splits if_splits)

lemma sys_step_waiting:
  assumes "list_all waiting (tasks (sys_step i s))"
  shows "list_all waiting (tasks s) \<and> heap (sys_step i s) = heap s"
proof (cases "i < length (tasks s)")
  case False
  with assms show ?thesis by (simp add: sys_step_def)
next
  case True
  obtain t' h' where st: "task_step (tasks s ! i) (heap s) = (t', h')"
    by (cases "task_step (tasks s ! i) (heap s)")
  have s': "sys_step i s = \<lparr>heap = h', tasks = (tasks s)[i := t']\<rparr>"
    using True st by (simp add: sys_step_def)
  from assms have all: "list_all waiting ((tasks s)[i := t'])" by (simp add: s')
  with True have "waiting t'" by (auto simp: list_all_length split: if_splits)
  from task_step_waiting [OF st this] have w: "waiting (tasks s ! i)" and h: "h' = h" if "h = heap s" for h
    using that by simp_all
  have "list_all waiting (tasks s)"
    unfolding list_all_length
  proof (intro allI impI)
    fix k assume k: "k < length (tasks s)"
    show "waiting (tasks s ! k)"
    proof (cases "k = i")
      case True
      then show ?thesis using w by simp
    next
      case False
      with all k show ?thesis by (auto simp: list_all_length)
    qed
  qed
  then show ?thesis using h by (simp add: s')
qed

lemma run_waiting:
  "list_all waiting (tasks (run sched s)) \<Longrightarrow> list_all waiting (tasks s) \<and> heap (run sched s) = heap s"
proof (induction sched arbitrary: s)
  case Nil
  then show ?case by simp
next
  case (Cons i sched)
  from Cons.prems have "list_all waiting (tasks (run sched (sys_step i s)))" by simp
  from Cons.IH [OF this] sys_step_waiting [of i s] show ?case by simp
qed

lemma co_await_lock_fst:
  "fst (co_await_lock d this h cur others aw m q) =
     (if fst (try_lock d others m) then Completed (fst (LockAwaitableBase_await_resume d aw)) else Suspended)"
  by (simp add: co_await_lock_def LockAwaitableBase_await_ready_def LockAwaitableBase_await_suspend_def
      split: prod.splits)

text \<open>
  C10. A \<^verbatim>\<open>try_lock\<close> that returns false leaves the lock word as the failing comparison
  found it and no proxy is made. For the shared awaitable: when the value read is
  negative the word is the value read, and when the exchange fails the word is what the
  other threads had made of it (\<open>others m\<close>). For the unique awaitable the exchange
  fails only on a word that is not 0, and the word stays. \<^verbatim>\<open>co_await\<close> then suspends:
  \<^verbatim>\<open>await_resume\<close>, the only maker of a proxy, is not called. For any number of tasks
  and any schedule: when no task has locked by the end of the run (every attempt made
  in it failed), the whole heap is what it was at the start.
\<close>

theorem failed_attempt_frame:
  "(\<not> fst (SharedLockAwaitable_try_lock others m) \<longrightarrow>
      snd (SharedLockAwaitable_try_lock others m) = (if 0 <=s m then others m else m))
   \<and> (\<not> fst (UniqueLockAwaitable_try_lock mu) \<longrightarrow>
      mu \<noteq> 0 \<and> snd (UniqueLockAwaitable_try_lock mu) = mu)
   \<and> (\<not> fst (try_lock d others' m') \<longrightarrow>
      fst (co_await_lock d this h cur others' aw m' q) = Suspended)
   \<and> (list_all waiting (tasks (run sched s)) \<longrightarrow> heap (run sched s) = heap s)"
  using run_waiting [of sched s]
  by (simp add: shared_try_lock_eq unique_try_lock_eq co_await_lock_fst)

text \<open>
  A shared attempt that reads 1 while another task moves the word to 2, a unique attempt
  on the word 3, and in \<open>s_locked\<close> six attempts of three tasks, all failing.
\<close>

theorem failed_attempt_frame_witness:
  "\<not> fst (SharedLockAwaitable_try_lock ((+) 1) 1)
   \<and> snd (SharedLockAwaitable_try_lock ((+) 1) 1) = 2
   \<and> \<not> fst (UniqueLockAwaitable_try_lock 3)
   \<and> snd (UniqueLockAwaitable_try_lock 3) = 3
   \<and> fst (co_await_lock UniqueLockAwaitable 7 (Some 1) 0 id (lock_unique 0) 3 idle_loops) = Suspended
   \<and> list_all waiting (tasks (run [0,1,2,1,0,0] s_locked))
   \<and> heap (run [0,1,2,1,0,0] s_locked) = heap s_locked"
proof -
  have a: "\<not> fst (SharedLockAwaitable_try_lock ((+) 1) 1)" by code_simp
  have b: "\<not> fst (UniqueLockAwaitable_try_lock 3)" by code_simp
  have c: "\<not> fst (try_lock UniqueLockAwaitable id 3)" by code_simp
  have d: "list_all waiting (tasks (run [0,1,2,1,0,0] s_locked))" by code_simp
  have e: "(if 0 <=s (1::int32) then (+) 1 (1::int32) else 1) = 2" by (simp add: word_sle_eq)
  from failed_attempt_frame [of "(+) 1" 1 3 UniqueLockAwaitable id 3 7 "Some 1" 0 "lock_unique 0" idle_loops
      "[0,1,2,1,0,0]" s_locked] a b c d e
  show ?thesis by (simp del: run.simps)
qed

subsection \<open>Release and quiescence\<close>

text \<open>
  Proxies that are never moved. The destructor of a \<^verbatim>\<open>SharedProxy\<close> of the resource
  at \<open>r\<close> takes one from the lock word of \<open>r\<close> and changes nothing else; the
  destructor of a \<^verbatim>\<open>UniqueProxy\<close> sets the word to 0 and changes nothing else. From
  the start, after any schedule of the tasks (each proxy destroyed once, none moved):
  when every task that locked \<open>g\<close> has destroyed its proxy, so that no task owns \<open>g\<close>,
  the lock word of \<open>g\<close> is 0.
\<close>

lemma unmoved_proxies_dropped_state_zero:
  assumes "initial g s"
  shows "SharedProxy_dtor (SharedProxy (Some r)) h = h(r := (h r)\<lparr>m_state := m_state (h r) - 1\<rparr>)
       \<and> UniqueProxy_dtor (UniqueProxy (Some r)) h = h(r := (h r)\<lparr>m_state := 0\<rparr>)
       \<and> ((\<forall>t \<in> set (tasks (run sched s)). \<not> owns_shared g t \<and> \<not> owns_unique g t) \<longrightarrow>
             m_state (heap (run sched s) g) = 0)"
proof -
  have inv: "lock_inv g (run sched s)"
    using assms by (intro lock_inv_run initial_lock_inv)
  show ?thesis
    using lock_inv_quiescent [OF inv] by (simp add: fetch_sub_def store_def)
qed

text \<open>
  In \<open>s0\<close>: with both shared proxies alive the word is 2; after they are destroyed, the
  unique task has locked and its proxy is destroyed too, the word is 0.
\<close>

lemma unmoved_proxies_dropped_state_zero_example:
  "initial 0 s0
   \<and> m_state (heap (run [0,0,0,1,2,2,2,1] s0) 0) = 2
   \<and> tasks (run [0,0,0,1,2,2,2,1,0,2,1,1,1] s0) = [Finished, Finished, Finished]
   \<and> m_state (heap (run [0,0,0,1,2,2,2,1,0,2,1,1,1] s0) 0) = 0"
proof -
  have init: "initial 0 s0" by code_simp
  have mid: "m_state (heap (run [0,0,0,1,2,2,2,1] s0) 0) = 2" by code_simp
  have fin: "tasks (run [0,0,0,1,2,2,2,1,0,2,1,1,1] s0) = [Finished, Finished, Finished]" by code_simp
  then have "\<forall>t \<in> set (tasks (run [0,0,0,1,2,2,2,1,0,2,1,1,1] s0)). \<not> owns_shared 0 t \<and> \<not> owns_unique 0 t"
    by simp
  with unmoved_proxies_dropped_state_zero [OF init, of _ _ "[0,0,0,1,2,2,2,1,0,2,1,1,1]"]
  have "m_state (heap (run [0,0,0,1,2,2,2,1,0,2,1,1,1] s0) 0) = 0" by blast
  with init mid fin show ?thesis by blast
qed

text \<open>
  C8. The two destructors do what the claim says: one takes one from the lock word, the
  other sets it to 0. The quiescence the claim concludes fails on the code when a proxy
  is move-constructed, which is no acquisition and no release. In \<open>s0\<close> the first
  shared task locks and resumes; its proxy is move-constructed, and the moved-from proxy
  still holds the pointer; the new proxy is destroyed and then the task's own. No proxy
  is left, the task is finished, the other two tasks have not tried, and the lock word
  is \<open>-1\<close>, not 0.
\<close>

theorem all_proxies_dropped_state_not_zero:
  "tasks (run [0,0,0] s0) ! 0 = Holding (AsShared (SharedProxy (Some 0)))
   \<and> snd (SharedProxy_move_ctor (SharedProxy (Some 0))) = SharedProxy (Some 0)
   \<and> SharedProxy_dtor (SharedProxy (Some 0)) (heap (run [0,0,0] s0)) 0
        = (heap (run [0,0,0] s0) 0)\<lparr>m_state := m_state (heap (run [0,0,0] s0) 0) - 1\<rparr>
   \<and> tasks s_dropped = [Finished, Awaiting UniqueLockAwaitable (lock_unique 0),
                          Awaiting SharedLockAwaitable (lock_shared 0)]
   \<and> m_state (heap s_dropped 0) = - 1
   \<and> m_state (heap s_dropped 0) \<noteq> 0"
  by code_simp

subsection \<open>One attempt of the shared lock\<close>

lemma spin_eq:
  "spin d this cur others aw m q =
     (snd (try_lock d others m),
      queueInLoop cur (if fst (try_lock d others m) then Resume (handle' aw) else Spin this) q)"
  by (simp add: spin_def split: prod.splits)

text \<open>
  C3, as claimed, fails. A shared \<^verbatim>\<open>try_lock\<close> reads 1; before its exchange another
  task takes a shared lock and the word is 2; the exchange fails and \<^verbatim>\<open>try_lock\<close>
  returns false, with the word 2, not negative. Nothing in \<^verbatim>\<open>try_lock\<close> repeats the
  load and the exchange. The same in \<open>s0\<close>: the first task reads 0, the third task
  reads 0 and exchanges it for 1, and the exchange of the first task fails; its
  \<^verbatim>\<open>try_lock\<close> is over, it has not locked, and the word is 1.
\<close>

theorem shared_try_lock_counterexample:
  "\<not> fst (SharedLockAwaitable_try_lock ((+) 1) 1)
   \<and> 0 <=s snd (SharedLockAwaitable_try_lock ((+) 1) 1)
   \<and> tasks (run [0,2,2] s0) ! 0 = Loaded (lock_shared 0) 0
   \<and> tasks (run [0,2,2,0] s0) ! 0 = Awaiting SharedLockAwaitable (lock_shared 0)
   \<and> m_state (heap (run [0,2,2,0] s0) 0) = 1"
  by code_simp

text \<open>
  C3, amended. One shared attempt makes one load and, when the value read is not
  negative, one exchange from that value to that value plus one. It returns true exactly
  when the value read is not negative and is still the word at the exchange; when the
  exchange fails it returns false at once, whatever the word is, and leaves the word as
  it found it. The next attempt is another call: \<^verbatim>\<open>spin\<close> queues a resumption on the
  loop of the current thread when the attempt succeeded and another \<^verbatim>\<open>spin\<close> when
  it failed.
\<close>

theorem shared_try_lock_single_attempt:
  "SharedLockAwaitable_try_lock others m =
     (if 0 <=s m \<and> others m = m then (True, m + 1)
      else if 0 <=s m then (False, others m)
      else (False, m))
   \<and> spin SharedLockAwaitable this cur others aw m q =
     (snd (SharedLockAwaitable_try_lock others m),
      queueInLoop cur (if fst (SharedLockAwaitable_try_lock others m) then Resume (handle' aw) else Spin this) q)"
  using spin_eq [of SharedLockAwaitable] by (simp add: shared_try_lock_eq)

subsection \<open>A proxy that is moved\<close>

text \<open>
  C1. The claim holds of the proxies that are never moved (the tasks of the model), and
  fails on the code for a proxy that is move-constructed. In \<open>s0\<close> the first shared
  task locks and resumes: its \<^verbatim>\<open>SharedProxy\<close> is alive and the word is 1. The proxy is
  move-constructed into \<open>q\<close>; the moved-from proxy \<open>p\<close> still holds the pointer. The
  destructor of \<open>q\<close> brings the word to 0 and the destructor of \<open>p\<close> to \<open>-1\<close>: one
  acquisition, two releases. With the word \<open>-1\<close> and no owner, every later
  \<^verbatim>\<open>try_lock\<close> fails. For the \<^verbatim>\<open>UniqueProxy\<close> (\<open>s_moved\<close>) the second
  \<^verbatim>\<open>store(0)\<close> clears the word while a \<^verbatim>\<open>SharedProxy\<close> acquired in between is alive,
  and a unique \<^verbatim>\<open>try_lock\<close> then succeeds.
\<close>

theorem moved_proxy_released_twice:
  "tasks (run [0,0,0] s0) ! 0 = Holding (AsShared (SharedProxy (Some 0)))
   \<and> m_state (heap (run [0,0,0] s0) 0) = 1
   \<and> (case SharedProxy_move_ctor (SharedProxy (Some 0)) of (q, p) \<Rightarrow>
        q = SharedProxy (Some 0) \<and> p = SharedProxy (Some 0) \<and>
        m_state (SharedProxy_dtor q (heap (run [0,0,0] s0)) 0) = 0 \<and>
        m_state (SharedProxy_dtor p (SharedProxy_dtor q (heap (run [0,0,0] s0))) 0) = - 1)
   \<and> \<not> fst (SharedLockAwaitable_try_lock id (- 1))
   \<and> \<not> fst (UniqueLockAwaitable_try_lock (- 1))
   \<and> live_shared 0 (tasks s_moved ! 0)
   \<and> m_state (heap s_moved 0) = 0
   \<and> fst (UniqueLockAwaitable_try_lock (m_state (heap s_moved 0)))"
  by code_simp

subsection \<open>isHolding\<close>

text \<open>
  C9. \<^verbatim>\<open>isHolding(a_data)\<close> is true exactly when \<open>a_data\<close> is the \<^verbatim>\<open>m_data\<close> member
  of this resource; it returns the heap as it found it; and for any other object, also
  one whose value equals the guarded value, it is false.
\<close>

theorem isHolding_identity:
  "fst (isHolding this a_data h) = (a_data = m_data_of this)
   \<and> snd (isHolding this a_data h) = h
   \<and> (a_data \<noteq> m_data_of this \<and> read_T h objs a_data = read_T h objs (m_data_of this) \<longrightarrow>
        \<not> fst (isHolding this a_data h))"
  by (auto simp: isHolding_def)

text \<open>
  Every resource and every other object holds the value 7; the resource at 0 holds only
  its own member.
\<close>

theorem isHolding_identity_witness:
  "fst (isHolding 0 (m_data_of 0) (\<lambda>_. create (7::nat)))
   \<and> m_data_of 1 \<noteq> m_data_of 0
   \<and> read_T (\<lambda>_. create (7::nat)) (\<lambda>_. 7) (m_data_of 1) = read_T (\<lambda>_. create 7) (\<lambda>_. 7) (m_data_of 0)
   \<and> \<not> fst (isHolding 0 (m_data_of 1) (\<lambda>_. create (7::nat)))
   \<and> read_T (\<lambda>_. create (7::nat)) (\<lambda>_. 7) (other_object 3) = read_T (\<lambda>_. create 7) (\<lambda>_. 7) (m_data_of 0)
   \<and> \<not> fst (isHolding 0 (other_object 3) (\<lambda>_. create (7::nat)))"
proof -
  have a: "m_data_of 1 \<noteq> m_data_of 0" "other_object 3 \<noteq> m_data_of 0" by simp_all
  have b: "read_T (\<lambda>_. create (7::nat)) (\<lambda>_. 7) (m_data_of 1) = read_T (\<lambda>_. create 7) (\<lambda>_. 7) (m_data_of 0)"
    "read_T (\<lambda>_. create (7::nat)) (\<lambda>_. 7) (other_object 3) = read_T (\<lambda>_. create 7) (\<lambda>_. 7) (m_data_of 0)"
    by (simp_all add: read_T_def create_def)
  from isHolding_identity [of 0 "m_data_of 0" "\<lambda>_. create (7::nat)"]
    isHolding_identity [of 0 "m_data_of 1" "\<lambda>_. create (7::nat)" "\<lambda>_. 7"]
    isHolding_identity [of 0 "other_object 3" "\<lambda>_. create (7::nat)" "\<lambda>_. 7"] a b
  show ?thesis by simp
qed

section \<open>The claims about resume\_on\_io\_loop\<close>

lemma await_suspend_eq:
  "awaiter_await_suspend move_ctor handle cur threadNum on_thread self q =
     (self\<lparr>m_original_thread_index := (if threadNum \<le> cur then 0 else cur),
           m_result := (case m_inner_awaiter self of
                          Inl e \<Rightarrow> exception_ptr e
                        | Inr v \<Rightarrow> (case move_ctor v of
                                     Inl e \<Rightarrow> exception_ptr e
                                   | Inr v' \<Rightarrow> ResultType v'))\<rparr>,
      queueInLoop (if threadNum \<le> cur then 0 else cur) (Resume handle) q)"
  by (cases "m_inner_awaiter self"; cases "move_ctor (projr (m_inner_awaiter self))")
     (simp_all add: awaiter_await_suspend_def lambda_def)

lemma await_suspend_void_eq:
  "awaiter_await_suspend_void handle cur threadNum on_thread self q =
     (self\<lparr>m_original_thread_index := (if threadNum \<le> cur then 0 else cur),
           m_result := (case m_inner_awaiter self of Inl e \<Rightarrow> exception_ptr_void e | Inr v \<Rightarrow> m_result self)\<rparr>,
      queueInLoop (if threadNum \<le> cur then 0 else cur) (Resume handle) q)"
  by (cases "m_inner_awaiter self") (simp_all add: awaiter_await_suspend_void_def lambda_void_def)



text \<open>
  C4, as claimed, fails for a void \<^verbatim>\<open>ResultType\<close>. The awaiter as
  \<^verbatim>\<open>operator co_await\<close> makes it holds \<^verbatim>\<open>std::monostate\<close>, neither value nor
  exception; \<^verbatim>\<open>await_resume\<close> on it returns normally.
\<close>

theorem pending_slot_counterexample:
  "m_result (operator_co_await_void (switch_to_io_loop (Inr () :: string + unit))) = monostate_void
   \<and> awaiter_await_resume_void (operator_co_await_void (switch_to_io_loop (Inr () :: string + unit))) = Inr ()"
  by (simp add: switch_to_io_loop_def awaiter_await_resume_void_def)

text \<open>
  C4, amended. For a \<^verbatim>\<open>ResultType\<close> that is not void, \<^verbatim>\<open>await_resume\<close> on a slot
  that holds neither value nor exception throws the \<^verbatim>\<open>std::runtime_error\<close> of
  \<^verbatim>\<open>await_resume\<close>, which is no rethrown exception of the inner operation and no
  value. For void the variant has no alternative for a value, the pending slot is the
  slot of a success, and \<^verbatim>\<open>await_resume\<close> returns normally.
\<close>

theorem pending_slot_at_resumption:
  "(m_result self = monostate \<longrightarrow>
      awaiter_await_resume move_ctor self
        = Inl (runtime_error ''await_resume: neither exception nor value is in m_result'')
      \<and> (\<forall>e. awaiter_await_resume move_ctor self \<noteq> Inl (rethrown e))
      \<and> (\<forall>e. awaiter_await_resume move_ctor self \<noteq> Inl (thrown e))
      \<and> (\<forall>v. awaiter_await_resume move_ctor self \<noteq> Inr v))
   \<and> (m_result selfv = monostate_void \<longrightarrow> awaiter_await_resume_void selfv = Inr ())"
  by (simp add: awaiter_await_resume_def awaiter_await_resume_void_def)

theorem pending_slot_at_resumption_witness:
  "m_result (operator_co_await (switch_to_io_loop (Inr 5 :: string + nat))) = monostate
   \<and> awaiter_await_resume Inr (operator_co_await (switch_to_io_loop (Inr 5 :: string + nat)))
       = Inl (runtime_error ''await_resume: neither exception nor value is in m_result'')
   \<and> m_result (operator_co_await_void (switch_to_io_loop (Inl ''boom'' :: string + unit))) = monostate_void
   \<and> awaiter_await_resume_void (operator_co_await_void (switch_to_io_loop (Inl ''boom'' :: string + unit))) = Inr ()"
proof -
  have a: "m_result (operator_co_await (switch_to_io_loop (Inr 5 :: string + nat))) = monostate"
    by (simp add: switch_to_io_loop_def)
  have b: "m_result (operator_co_await_void (switch_to_io_loop (Inl ''boom'' :: string + unit))) = monostate_void"
    by (simp add: switch_to_io_loop_def)
  from pending_slot_at_resumption [of "operator_co_await (switch_to_io_loop (Inr 5 :: string + nat))" Inr
      "operator_co_await_void (switch_to_io_loop (Inl ''boom'' :: string + unit))"] a b
  show ?thesis by blast
qed




subsection \<open>Who suspends\<close>

lemma co_await_lock_eq:
  "co_await_lock d this h cur others aw m q =
     (if fst (try_lock d others m)
      then (Completed (fst (LockAwaitableBase_await_resume d aw)),
            snd (LockAwaitableBase_await_resume d aw), snd (try_lock d others m), q)
      else (Suspended, aw\<lparr>handle' := h\<rparr>, snd (try_lock d others m), queueInLoop cur (Spin this) q))"
  by (simp add: co_await_lock_def LockAwaitableBase_await_ready_def LockAwaitableBase_await_suspend_def
      split: prod.splits)

text \<open>
  C7. \<^verbatim>\<open>await_ready\<close> of the wrapper's awaiter is false for every wrapped awaiter, so
  \<^verbatim>\<open>co_await\<close> on the wrapper takes the one path, for a \<^verbatim>\<open>ResultType\<close> that is void
  or not and whatever the inner awaiter does: the caller is suspended,
  \<^verbatim>\<open>await_suspend\<close> is called on the awaiter that \<^verbatim>\<open>operator co_await\<close> made, and
  the loops afterwards are the loops before with the resumption of the caller appended
  to the queue of the thread index captured (0 when it is not valid). A lock awaitable
  is different: its \<^verbatim>\<open>await_ready\<close> is its \<^verbatim>\<open>try_lock\<close>; when the attempt succeeds
  \<^verbatim>\<open>co_await\<close> completes at once with the proxy and queues nothing, and only when it
  fails is the caller suspended, with a \<^verbatim>\<open>spin\<close> queued on the loop of the current
  thread.
\<close>

theorem wrapper_always_suspends_lock_on_failure:
  "awaiter_await_ready self = False
   \<and> co_await_resume_on_io_loop move_ctor w handle cur threadNum on_thread q
       = (Suspended, awaiter_await_suspend move_ctor handle cur threadNum on_thread (operator_co_await w) q)
   \<and> snd (snd (co_await_resume_on_io_loop move_ctor w handle cur threadNum on_thread q))
       = queueInLoop (if threadNum \<le> cur then 0 else cur) (Resume handle) q
   \<and> co_await_resume_on_io_loop_void wv handle cur threadNum on_thread q
       = (Suspended, awaiter_await_suspend_void handle cur threadNum on_thread (operator_co_await_void wv) q)
   \<and> snd (snd (co_await_resume_on_io_loop_void wv handle cur threadNum on_thread q))
       = queueInLoop (if threadNum \<le> cur then 0 else cur) (Resume handle) q
   \<and> LockAwaitableBase_await_ready d others m = try_lock d others m
   \<and> (fst (co_await_lock d this h cur' others aw m q') = Suspended) = (\<not> fst (try_lock d others m))
   \<and> co_await_lock d this h cur' others aw m q'
       = (if fst (try_lock d others m)
          then (Completed (fst (LockAwaitableBase_await_resume d aw)),
                snd (LockAwaitableBase_await_resume d aw), snd (try_lock d others m), q')
          else (Suspended, aw\<lparr>handle' := h\<rparr>, snd (try_lock d others m),
                queueInLoop cur' (Spin this) q'))"
proof -
  have w: "co_await_resume_on_io_loop move_ctor w handle cur threadNum on_thread q
       = (Suspended, awaiter_await_suspend move_ctor handle cur threadNum on_thread (operator_co_await w) q)"
    by (simp add: co_await_resume_on_io_loop_def awaiter_await_ready_def split: prod.splits)
  have wv: "co_await_resume_on_io_loop_void wv handle cur threadNum on_thread q
       = (Suspended, awaiter_await_suspend_void handle cur threadNum on_thread (operator_co_await_void wv) q)"
    by (simp add: co_await_resume_on_io_loop_void_def awaiter_await_ready_def split: prod.splits)
  have wq: "snd (snd (co_await_resume_on_io_loop move_ctor w handle cur threadNum on_thread q))
       = queueInLoop (if threadNum \<le> cur then 0 else cur) (Resume handle) q"
    unfolding w by (simp add: await_suspend_eq)
  have wvq: "snd (snd (co_await_resume_on_io_loop_void wv handle cur threadNum on_thread q))
       = queueInLoop (if threadNum \<le> cur then 0 else cur) (Resume handle) q"
    unfolding wv by (simp add: await_suspend_void_eq)
  have l: "(fst (co_await_lock d this h cur' others aw m q') = Suspended) = (\<not> fst (try_lock d others m))"
    by (simp add: co_await_lock_eq)
  show ?thesis
    using w wv wq wvq l co_await_lock_eq [of d this h cur' others aw m q']
    by (simp add: awaiter_await_ready_def LockAwaitableBase_await_ready_def)
qed

text \<open>
  An inner operation that has its value at once is still suspended and reposted, on
  loop 1 of four; a unique lock on a free resource completes at once and queues nothing;
  on a held one it suspends and queues a \<^verbatim>\<open>spin\<close>.
\<close>

theorem wrapper_always_suspends_lock_on_failure_witness:
  "fst (co_await_resume_on_io_loop Inr (switch_to_io_loop (Inr 5 :: string + nat)) (Some 1) 1 4 2 idle_loops)
     = Suspended
   \<and> snd (snd (co_await_resume_on_io_loop Inr (switch_to_io_loop (Inr 5 :: string + nat))
        (Some 1) 1 4 2 idle_loops)) 1 = [Resume (Some 1)]
   \<and> fst (co_await_lock UniqueLockAwaitable 7 (Some 1) 0 id (lock_unique 0) 0 idle_loops)
     = Completed (AsUnique (UniqueProxy (Some 0)))
   \<and> snd (snd (snd (co_await_lock UniqueLockAwaitable 7 (Some 1) 0 id (lock_unique 0) 0 idle_loops))) 0 = []
   \<and> fst (co_await_lock UniqueLockAwaitable 7 (Some 1) 0 id (lock_unique 0) 1 idle_loops) = Suspended
   \<and> snd (snd (snd (co_await_lock UniqueLockAwaitable 7 (Some 1) 0 id (lock_unique 0) 1 idle_loops))) 0
     = [Spin 7]"
proof -
  note free = wrapper_always_suspends_lock_on_failure
      [of "operator_co_await (switch_to_io_loop (Inr 5 :: string + nat))" Inr
        "switch_to_io_loop (Inr 5 :: string + nat)" "Some 1" 1 4 2 idle_loops
        "switch_to_io_loop (Inr () :: string + unit)"
        UniqueLockAwaitable id 0 7 "Some 1" 0 "lock_unique 0" idle_loops]
  note held = wrapper_always_suspends_lock_on_failure
      [of "operator_co_await (switch_to_io_loop (Inr 5 :: string + nat))" Inr
        "switch_to_io_loop (Inr 5 :: string + nat)" "Some 1" 1 4 2 idle_loops
        "switch_to_io_loop (Inr () :: string + unit)"
        UniqueLockAwaitable id 1 7 "Some 1" 0 "lock_unique 0" idle_loops]
  note free2 = free [THEN conjunct2, THEN conjunct1]
  note free3 = free [THEN conjunct2, THEN conjunct2, THEN conjunct1]
  note free8 = free [THEN conjunct2, THEN conjunct2, THEN conjunct2, THEN conjunct2,
      THEN conjunct2, THEN conjunct2, THEN conjunct2]
  note held8 = held [THEN conjunct2, THEN conjunct2, THEN conjunct2, THEN conjunct2,
      THEN conjunct2, THEN conjunct2, THEN conjunct2]
  have a:
    "fst (co_await_resume_on_io_loop Inr (switch_to_io_loop (Inr 5 :: string + nat)) (Some 1) 1 4 2 idle_loops)
       = Suspended"
    "snd (snd (co_await_resume_on_io_loop Inr (switch_to_io_loop (Inr 5 :: string + nat))
        (Some 1) 1 4 2 idle_loops)) 1 = [Resume (Some 1)]"
    unfolding free3 unfolding free2 by (simp_all add: queueInLoop_def idle_loops_def)
  have b:
    "fst (co_await_lock UniqueLockAwaitable 7 (Some 1) 0 id (lock_unique 0) 0 idle_loops)
       = Completed (AsUnique (UniqueProxy (Some 0)))"
    "snd (snd (snd (co_await_lock UniqueLockAwaitable 7 (Some 1) 0 id (lock_unique 0) 0 idle_loops))) 0 = []"
    unfolding free8 by (simp_all add: unique_try_lock_eq idle_loops_def lock_unique_def shared_ptr_move_def)
  have c:
    "fst (co_await_lock UniqueLockAwaitable 7 (Some 1) 0 id (lock_unique 0) 1 idle_loops) = Suspended"
    "snd (snd (snd (co_await_lock UniqueLockAwaitable 7 (Some 1) 0 id (lock_unique 0) 1 idle_loops))) 0
       = [Spin 7]"
    unfolding held8 by (simp_all add: unique_try_lock_eq queueInLoop_def idle_loops_def)
  from a b c show ?thesis by blast
qed

end
